theory Spec2Isabelle
  imports Complex_Main "HOL-Library.Log_Nat"
begin

section \<open>IEEE binary64 arithmetic, as far as the brightness conversion needs it\<close>

text \<open>
  \<^verbatim>\<open>light.py\<close> converts between the Crownstone scale 0..100 and the Home Assistant scale
  0..255 with \<^verbatim>\<open>int(numpy.interp(value, [0, 100], [0, 255]))\<close>. \<^verbatim>\<open>numpy.interp\<close> works on
  float64 values, so the embedding carries every finite float64 as the rational number it
  denotes and rounds the exact result of each operation to the nearest float64, ties to
  the even significand. Only the normal range is modelled (53-bit significands with an
  unbounded exponent); every intermediate value of the two conversions lies between
  \<open>2\<^sup>-\<^sup>2\<close> and \<open>2\<^sup>8\<close>, well inside it. Infinities and NaN do not arise from
  finite inputs here and are left out.
\<close>

type_synonym float64 = rat

text \<open>\<open>ilog2 x\<close> is the binary exponent of a positive \<open>x\<close>: \<open>2\<^sup>e \<le> x < 2\<^sup>e\<^sup>+\<^sup>1\<close>.\<close>

definition ilog2 :: "rat \<Rightarrow> int" where
  "ilog2 x = (if 1 \<le> x then int (floorlog 2 (nat \<lfloor>x\<rfloor>)) - 1
              else - int (floorlog 2 (nat (\<lceil>1 / x\<rceil> - 1))))"

definition round_half_even :: "rat \<Rightarrow> int" where
  "round_half_even x =
     (let f = \<lfloor>x\<rfloor>; r = x - of_int f
      in if r < 1 / 2 then f
         else if 1 / 2 < r then f + 1
         else if even f then f else f + 1)"

text \<open>Rounding of an exact value to float64: the significand is cut to 53 bits.\<close>

definition fl :: "rat \<Rightarrow> float64" where
  "fl x = (if x = 0 then 0
           else let e = ilog2 \<bar>x\<bar> - 52
                in sgn x * of_int (round_half_even (\<bar>x\<bar> / 2 powi e)) * 2 powi e)"

definition fadd :: "float64 \<Rightarrow> float64 \<Rightarrow> float64" where
  "fadd a b = fl (a + b)"

definition fsub :: "float64 \<Rightarrow> float64 \<Rightarrow> float64" where
  "fsub a b = fl (a - b)"

definition fmul :: "float64 \<Rightarrow> float64 \<Rightarrow> float64" where
  "fmul a b = fl (a * b)"

definition fdiv :: "float64 \<Rightarrow> float64 \<Rightarrow> float64" where
  "fdiv a b = fl (a / b)"

section \<open>Exceptions\<close>

text \<open>
  \<open>CrownstoneAbilityError\<close> is the cloud library's exception for a disabled ability, the
  only one \<^verbatim>\<open>light.py\<close> catches. \<open>OverflowError\<close> is what Python raises when an integer
  is too large for a float64. \<open>OtherException\<close> stands for every other exception a channel
  may raise (network, serial), tagged by its message.
\<close>

datatype exn = CrownstoneAbilityError | OverflowError | OtherException string

text \<open>
  Python's conversion of an \<^verbatim>\<open>int\<close> to float64, as \<^verbatim>\<open>numpy.interp\<close> applies it to \<^verbatim>\<open>x\<close>:
  the rounded value must stay below \<open>2\<^sup>1\<^sup>0\<^sup>2\<^sup>4\<close>, that is, its binary exponent below 1024.
\<close>

definition float_of_int :: "int \<Rightarrow> exn + float64" where
  "float_of_int n =
     (let r = fl (of_int n)
      in if r = 0 \<or> ilog2 \<bar>r\<bar> < 1024 then Inr r else Inl OverflowError)"

text \<open>Python's \<^verbatim>\<open>int(x)\<close> on a float: truncation towards zero.\<close>

definition py_int :: "float64 \<Rightarrow> int" where
  "py_int x = (if 0 \<le> x then \<lfloor>x\<rfloor> else \<lceil>x\<rceil>)"

section \<open>numpy.interp\<close>

text \<open>
  \<^verbatim>\<open>numpy.interp\<close> belongs to NumPy, not to this repository; the definitions below follow
  its implementation for float64 arguments.

  The search for the interval of \<^verbatim>\<open>key\<close>: for tables of at most four
  points it is the linear scan \<^verbatim>\<open>for (i = 1; i < len && key >= arr[i]; ++i); return i - 1;\<close>,
  after the two tests for a key outside the table (\<open>len\<close> above it, \<open>-1\<close> below it).
\<close>

function linear_search :: "float64 \<Rightarrow> float64 list \<Rightarrow> nat \<Rightarrow> nat" where
  "linear_search key arr i =
     (if i < length arr \<and> arr ! i \<le> key then linear_search key arr (Suc i) else i)"
  by pat_completeness auto
termination
  by (relation "measure (\<lambda>(key, arr, i). length arr - i)") auto

declare linear_search.simps [simp del]

definition binary_search_with_guess :: "float64 \<Rightarrow> float64 list \<Rightarrow> int" where
  "binary_search_with_guess key arr =
     (if last arr < key then int (length arr)
      else if key < arr ! 0 then - 1
      else int (linear_search key arr 1) - 1)"

text \<open>
  One-dimensional piecewise linear interpolation with the default \<^verbatim>\<open>left\<close> and \<^verbatim>\<open>right\<close>
  (the first and the last value of \<^verbatim>\<open>fp\<close>): a key outside the table is clamped, a key
  that is a sample point returns its sample, and inside an interval the result is
  \<^verbatim>\<open>slope*(x - xp[j]) + fp[j]\<close> with \<^verbatim>\<open>slope = (fp[j+1] - fp[j]) / (xp[j+1] - xp[j])\<close>,
  each operation rounded.
\<close>

definition interp :: "float64 \<Rightarrow> float64 list \<Rightarrow> float64 list \<Rightarrow> float64" where
  "interp x xp fp =
     (let j = binary_search_with_guess x xp; n = int (length xp)
      in if j = - 1 then fp ! 0
         else if j = n then last fp
         else if j = n - 1 then fp ! nat j
         else if xp ! nat j = x then fp ! nat j
         else let slope = fdiv (fsub (fp ! (nat j + 1)) (fp ! nat j))
                               (fsub (xp ! (nat j + 1)) (xp ! nat j))
              in fadd (fmul slope (fsub x (xp ! nat j))) (fp ! nat j))"

section \<open>Scale conversion (light.py)\<close>

text \<open>\<^verbatim>\<open>crownstone_state_to_hass\<close>: Crownstone 0..100 to hass 0..255.\<close>

definition crownstone_state_to_hass :: "int \<Rightarrow> exn + int" where
  "crownstone_state_to_hass v =
     (case float_of_int v of
        Inl e \<Rightarrow> Inl e
      | Inr x \<Rightarrow> Inr (py_int (interp x [0, 100] [0, 255])))"

text \<open>\<^verbatim>\<open>hass_to_crownstone_state\<close>: hass 0..255 to Crownstone 0..100.\<close>

definition hass_to_crownstone_state :: "int \<Rightarrow> exn + int" where
  "hass_to_crownstone_state v =
     (case float_of_int v of
        Inl e \<Rightarrow> Inl e
      | Inr x \<Rightarrow> Inr (py_int (interp x [0, 255] [0, 100])))"

text \<open>
  The contract of the specification, in its own words: nearest-integer rounding of the
  exact quotient (\<^const>\<open>round\<close> is \<open>\<lfloor>x + 1/2\<rfloor>\<close>).
\<close>

definition to_external_spec :: "int \<Rightarrow> int" where
  "to_external_spec v = round (rat_of_int (v * 255) / 100)"

definition to_internal_spec :: "int \<Rightarrow> int" where
  "to_internal_spec v = round (rat_of_int (v * 100) / 255)"

section \<open>The Crownstone entity (light.py)\<close>

text \<open>
  The collaborators are opaque libraries, so each of their operations is a field holding
  what the call does when it is made: it returns (\<open>Inr ()\<close>) or raises (\<open>Inl e\<close>).
  \<open>uart\<close> is the \<^verbatim>\<open>CrownstoneUart\<close> dongle driver, \<open>crownstone\<close> the cloud library's
  \<^verbatim>\<open>Crownstone\<close> object with its mutable \<^verbatim>\<open>state\<close> (0..100) and its three cloud requests.
  \<^verbatim>\<open>is_ready()\<close> is a query that returns a boolean. The requests leave \<^verbatim>\<open>state\<close> to the
  entity, and the host's \<^verbatim>\<open>async_write_ha_state\<close> and the logger return normally.
\<close>

record uart =
  is_ready :: bool
  dim_crownstone :: "int \<Rightarrow> int \<Rightarrow> exn + unit"
  switch_crownstone :: "int \<Rightarrow> bool \<Rightarrow> exn + unit"

record crownstone =
  unique_id :: int
  state :: int
  device_async_set_brightness :: "int \<Rightarrow> exn + unit"
  device_async_turn_on :: "exn + unit"
  device_async_turn_off :: "exn + unit"

text \<open>\<^verbatim>\<open>CrownstoneEntity\<close>: \<^verbatim>\<open>self.usb\<close> is \<^verbatim>\<open>None\<close> when no dongle serves the sphere.\<close>

record entity =
  usb :: "uart option"
  device :: crownstone

text \<open>
  What a method lets the outside observe, in order: the channel operations it invokes,
  each with its outcome, the state write to the host (\<^verbatim>\<open>async_write_ha_state\<close>) and the
  logging of a caught error.
\<close>

datatype call =
    UsbDimCrownstone int int
  | UsbSwitchCrownstone int bool
  | CloudSetBrightness int
  | CloudTurnOn
  | CloudTurnOff

datatype event = Channel call "exn + unit" | WriteHaState | LogError exn

text \<open>A method run: what it returns or raises, the entity afterwards, the events.\<close>

type_synonym run = "(exn + unit) \<times> entity \<times> event list"

definition invoke :: "call \<Rightarrow> exn + unit \<Rightarrow> (exn + unit) \<times> event list" where
  "invoke c outcome = (outcome, [Channel c outcome])"

text \<open>\<^verbatim>\<open>self.device.state = v\<close>\<close>

definition set_state :: "int \<Rightarrow> entity \<Rightarrow> entity" where
  "set_state v self = self\<lparr>device := (device self)\<lparr>state := v\<rparr>\<rparr>"

text \<open>
  \<^verbatim>\<open>self.usb is not None and self.usb.is_ready()\<close>: the dongle when the test holds.
\<close>

definition usb_ready :: "entity \<Rightarrow> uart option" where
  "usb_ready self =
     (case usb self of None \<Rightarrow> None | Some u \<Rightarrow> if is_ready u then Some u else None)"

text \<open>The properties \<^verbatim>\<open>brightness\<close> and \<^verbatim>\<open>is_on\<close>.\<close>

definition brightness :: "entity \<Rightarrow> exn + int" where
  "brightness self = crownstone_state_to_hass (state (device self))"

definition is_on :: "entity \<Rightarrow> exn + bool" where
  "is_on self =
     (case crownstone_state_to_hass (state (device self)) of
        Inl e \<Rightarrow> Inl e
      | Inr b \<Rightarrow> Inr (0 < b))"

text \<open>
  The body of the \<^verbatim>\<open>try\<close> block of \<^verbatim>\<open>async_turn_on\<close>, taken when \<^verbatim>\<open>ATTR_BRIGHTNESS\<close> is
  among the keyword arguments: dim through the dongle or the cloud, then store the
  converted level and write the state.
\<close>

definition turn_on_brightness :: "int \<Rightarrow> entity \<Rightarrow> run" where
  "turn_on_brightness b self =
     (let uid = unique_id (device self);
          sent =
            (case usb_ready self of
               Some u \<Rightarrow>
                 (case hass_to_crownstone_state b of
                    Inl e \<Rightarrow> (Inl e, [])
                  | Inr lvl \<Rightarrow> invoke (UsbDimCrownstone uid lvl) (dim_crownstone u uid lvl))
             | None \<Rightarrow>
                 (case hass_to_crownstone_state b of
                    Inl e \<Rightarrow> (Inl e, [])
                  | Inr lvl \<Rightarrow>
                      invoke (CloudSetBrightness lvl)
                        (device_async_set_brightness (device self) lvl)))
      in case sent of
           (Inl e, evs) \<Rightarrow> (Inl e, self, evs)
         | (Inr _, evs) \<Rightarrow>
             (case hass_to_crownstone_state b of
                Inl e \<Rightarrow> (Inl e, self, evs)
              | Inr lvl \<Rightarrow> (Inr (), set_state lvl self, evs @ [WriteHaState])))"

text \<open>
  \<^verbatim>\<open>async_turn_on(**kwargs)\<close>; the argument is \<^verbatim>\<open>kwargs.get(ATTR_BRIGHTNESS)\<close>. Only
  \<^verbatim>\<open>CrownstoneAbilityError\<close> is caught, and only around the brightness branch.
\<close>

definition async_turn_on :: "int option \<Rightarrow> entity \<Rightarrow> run" where
  "async_turn_on kwargs self =
     (let uid = unique_id (device self)
      in case kwargs of
           Some b \<Rightarrow>
             (case turn_on_brightness b self of
                (Inl CrownstoneAbilityError, s, evs) \<Rightarrow>
                  (Inr (), s, evs @ [LogError CrownstoneAbilityError])
              | r \<Rightarrow> r)
         | None \<Rightarrow>
             (case usb_ready self of
                Some u \<Rightarrow>
                  (case invoke (UsbSwitchCrownstone uid True) (switch_crownstone u uid True) of
                     (Inl e, evs) \<Rightarrow> (Inl e, self, evs)
                   | (Inr _, evs) \<Rightarrow> (Inr (), set_state 100 self, evs @ [WriteHaState]))
              | None \<Rightarrow>
                  (case invoke CloudTurnOn (device_async_turn_on (device self)) of
                     (Inl e, evs) \<Rightarrow> (Inl e, self, evs)
                   | (Inr _, evs) \<Rightarrow> (Inr (), set_state 100 self, evs @ [WriteHaState]))))"

text \<open>\<^verbatim>\<open>async_turn_off(**kwargs)\<close>\<close>

definition async_turn_off :: "entity \<Rightarrow> run" where
  "async_turn_off self =
     (let uid = unique_id (device self);
          sent =
            (case usb_ready self of
               Some u \<Rightarrow> invoke (UsbSwitchCrownstone uid False) (switch_crownstone u uid False)
             | None \<Rightarrow> invoke CloudTurnOff (device_async_turn_off (device self)))
      in case sent of
           (Inl e, evs) \<Rightarrow> (Inl e, self, evs)
         | (Inr _, evs) \<Rightarrow> (Inr (), set_state 0 self, evs @ [WriteHaState]))"

subsection \<open>The three commands of the specification\<close>

text \<open>
  The host reaches the entity through the two methods above; the specification speaks of
  three commands. \<open>set_brightness(level)\<close> is \<^verbatim>\<open>async_turn_on(brightness=level)\<close> with
  a level on the host's scale 0..255.
\<close>

datatype command = TurnOn | TurnOff | SetBrightness int

definition execute :: "command \<Rightarrow> entity \<Rightarrow> run" where
  "execute cmd self =
     (case cmd of
        TurnOn \<Rightarrow> async_turn_on None self
      | TurnOff \<Rightarrow> async_turn_off self
      | SetBrightness b \<Rightarrow> async_turn_on (Some b) self)"

fun valid_command :: "command \<Rightarrow> bool" where
  "valid_command (SetBrightness b) = (0 \<le> b \<and> b \<le> 255)"
| "valid_command _ = True"

text \<open>The state value a command aims at, on the Crownstone scale.\<close>

fun target_state :: "command \<Rightarrow> exn + int" where
  "target_state TurnOn = Inr 100"
| "target_state TurnOff = Inr 0"
| "target_state (SetBrightness b) = hass_to_crownstone_state b"

fun is_local :: "call \<Rightarrow> bool" where
  "is_local (UsbDimCrownstone uid lvl) = True"
| "is_local (UsbSwitchCrownstone uid on) = True"
| "is_local _ = False"

fun local_event :: "event \<Rightarrow> bool" where
  "local_event (Channel c outcome) = is_local c"
| "local_event _ = False"

fun remote_event :: "event \<Rightarrow> bool" where
  "remote_event (Channel c outcome) = (\<not> is_local c)"
| "remote_event _ = False"

definition result_of :: "run \<Rightarrow> exn + unit" where
  "result_of r = fst r"

definition entity_of :: "run \<Rightarrow> entity" where
  "entity_of r = fst (snd r)"

definition events_of :: "run \<Rightarrow> event list" where
  "events_of r = snd (snd r)"

subsection \<open>Sample entities\<close>

text \<open>A cloud device that is off, with every request succeeding.\<close>

definition plain_device :: crownstone where
  "plain_device =
     \<lparr>unique_id = 7, state = 0,
      device_async_set_brightness = (\<lambda>lvl. Inr ()),
      device_async_turn_on = Inr (), device_async_turn_off = Inr ()\<rparr>"

text \<open>The same device with dimming disabled: the cloud rejects a brightness request.\<close>

definition undimmable_device :: crownstone where
  "undimmable_device =
     plain_device\<lparr>device_async_set_brightness := (\<lambda>lvl. Inl CrownstoneAbilityError)\<rparr>"

text \<open>A device whose cloud requests all fail with a network error.\<close>

definition offline_device :: crownstone where
  "offline_device =
     \<lparr>unique_id = 7, state = 0,
      device_async_set_brightness = (\<lambda>lvl. Inl (OtherException ''timeout'')),
      device_async_turn_on = Inl (OtherException ''timeout''),
      device_async_turn_off = Inl (OtherException ''timeout'')\<rparr>"

text \<open>A dongle that is plugged in or not; its operations succeed.\<close>

definition dongle :: "bool \<Rightarrow> uart" where
  "dongle ready =
     \<lparr>is_ready = ready,
      dim_crownstone = (\<lambda>uid lvl. Inr ()),
      switch_crownstone = (\<lambda>uid on. Inr ())\<rparr>"

definition cloud_only :: "crownstone \<Rightarrow> entity" where
  "cloud_only d = \<lparr>usb = None, device = d\<rparr>"

definition with_dongle :: "bool \<Rightarrow> crownstone \<Rightarrow> entity" where
  "with_dongle ready d = \<lparr>usb = Some (dongle ready), device = d\<rparr>"

section \<open>Properties of the rounding\<close>

text \<open>The binary exponent brackets its argument.\<close>

lemma ilog2_bounds_ge1:
  assumes "1 \<le> x"
  shows "2 powi (ilog2 x) \<le> x \<and> x < 2 powi (ilog2 x + 1)"
proof -
  define n where "n = nat \<lfloor>x\<rfloor>"
  define k where "k = floorlog 2 n"
  have f1: "1 \<le> \<lfloor>x\<rfloor>" using assms by (simp only: le_floor_iff of_int_1)
  have n1: "0 < n" using f1 by (simp add: n_def)
  have fb: "2 ^ (k - 1) \<le> n \<and> n < 2 ^ k"
    unfolding k_def using floorlog_bounds [of n 2] n1 by simp
  have k1: "0 < k" using n1 by (simp add: k_def floorlog_def)
  have e: "ilog2 x = int k - 1" using assms by (simp add: ilog2_def n_def k_def)
  have ni: "int n = \<lfloor>x\<rfloor>" using f1 by (simp add: n_def)
  have nx: "rat_of_int (int n) \<le> x" unfolding ni by (rule of_int_floor_le)
  have xn: "x < rat_of_int (int n) + 1" unfolding ni using floor_correct [of x] by (simp only: of_int_add of_int_1)
  have "int k - 1 = int (k - 1)" using k1 by simp
  then have p1: "(2::rat) powi (int k - 1) = 2 ^ (k - 1)" by (simp only: power_int_of_nat)
  have "int k - 1 + 1 = int k" by simp
  then have p2: "(2::rat) powi (int k - 1 + 1) = 2 ^ k" by (simp only: power_int_of_nat)
  have "(2::nat) ^ (k - 1) \<le> n" using fb by blast
  then have "rat_of_nat (2 ^ (k - 1)) \<le> rat_of_nat n" by (simp only: of_nat_le_iff)
  then have "(2::rat) ^ (k - 1) \<le> rat_of_nat n" by simp
  then have a: "(2::rat) ^ (k - 1) \<le> x" using nx by (simp only: of_int_of_nat_eq)
  have "Suc n \<le> 2 ^ k" using fb by simp
  then have "rat_of_nat (Suc n) \<le> rat_of_nat (2 ^ k)" by (simp only: of_nat_le_iff)
  then have "rat_of_nat n + 1 \<le> 2 ^ k" by simp
  then have b: "x < 2 ^ k" using xn by (simp only: of_int_of_nat_eq)
  show ?thesis unfolding e p1 p2 using a b by blast
qed

lemma ilog2_bounds_lt1:
  assumes "0 < x" "x < 1"
  shows "2 powi (ilog2 x) \<le> x \<and> x < 2 powi (ilog2 x + 1)"
proof -
  define y where "y = 1 / x"
  define n where "n = nat (\<lceil>y\<rceil> - 1)"
  define k where "k = floorlog 2 n"
  have y1: "1 < y" using assms by (simp add: y_def)
  have c2: "1 < \<lceil>y\<rceil>" using y1 by (simp only: less_ceiling_iff of_int_1)
  have n1: "0 < n" using c2 by (simp add: n_def)
  have fb: "2 ^ (k - 1) \<le> n \<and> n < 2 ^ k"
    unfolding k_def using floorlog_bounds [of n 2] n1 by simp
  have k1: "0 < k" using n1 by (simp add: k_def floorlog_def)
  have e: "ilog2 x = - int k" using assms by (simp add: ilog2_def n_def k_def y_def)
  have ni: "int n = \<lceil>y\<rceil> - 1" using c2 by (simp add: n_def)
  have cc: "rat_of_int \<lceil>y\<rceil> - 1 < y \<and> y \<le> rat_of_int \<lceil>y\<rceil>" by (rule ceiling_correct)
  have ny: "rat_of_int (int n) < y" unfolding ni using cc by (simp only: of_int_diff of_int_1)
  have yn: "y \<le> rat_of_int (int n) + 1" unfolding ni using cc by (simp only: of_int_diff of_int_1 diff_add_cancel)
  have "(2::nat) ^ (k - 1) \<le> n" using fb by blast
  then have "rat_of_nat (2 ^ (k - 1)) \<le> rat_of_nat n" by (simp only: of_nat_le_iff)
  then have "(2::rat) ^ (k - 1) \<le> rat_of_nat n" by simp
  then have a: "(2::rat) ^ (k - 1) < y" using ny by (simp only: of_int_of_nat_eq)
  have "Suc n \<le> 2 ^ k" using fb by simp
  then have "rat_of_nat (Suc n) \<le> rat_of_nat (2 ^ k)" by (simp only: of_nat_le_iff)
  then have "rat_of_nat n + 1 \<le> 2 ^ k" by simp
  then have b: "y \<le> 2 ^ k" using yn by (simp only: of_int_of_nat_eq)
  have p1: "(2::rat) powi (- int k) = 1 / 2 ^ k" by (simp add: power_int_minus_divide)
  have "- int k + 1 = - int (k - 1)" using k1 by simp
  then have p2: "(2::rat) powi (- int k + 1) = 1 / 2 ^ (k - 1)"
    by (simp only: power_int_minus_divide power_int_of_nat)
  have pk: "(0::rat) < 2 ^ k" and pk1: "(0::rat) < 2 ^ (k - 1)" by simp_all
  have "1 / 2 ^ k \<le> x"
    using b assms(1) pk unfolding y_def by (simp only: field_simps) 
  moreover have "x < 1 / 2 ^ (k - 1)"
    using a assms(1) pk1 unfolding y_def by (simp only: field_simps)
  ultimately show ?thesis unfolding e p1 p2 by blast
qed

lemma ilog2_bounds:
  assumes "0 < x"
  shows "2 powi (ilog2 x) \<le> x \<and> x < 2 powi (ilog2 x + 1)"
  using assms ilog2_bounds_ge1 [of x] ilog2_bounds_lt1 [of x] by (cases "1 \<le> x") simp_all

text \<open>
  Rounding moves a positive value by at most half a unit in the last place, that is by a
  relative error of \<open>2\<^sup>-\<^sup>5\<^sup>3\<close>, and leaves integers below \<open>2\<^sup>5\<^sup>3\<close> alone.
\<close>

lemma round_half_even_of_int: "round_half_even (of_int m) = m"
  by (simp add: round_half_even_def)

lemma round_half_even_error: "\<bar>of_int (round_half_even x) - x\<bar> \<le> 1 / 2"
proof -
  have "rat_of_int \<lfloor>x\<rfloor> \<le> x" "x < rat_of_int \<lfloor>x\<rfloor> + 1"
    using floor_correct [of x] by (simp_all only: of_int_add of_int_1)
  then show ?thesis
    unfolding round_half_even_def Let_def by (simp only: of_int_add of_int_1 split: if_split) linarith
qed

lemma ilog2_less:
  assumes "0 < x" "x < 2 powi k"
  shows "ilog2 x < k"
proof (rule ccontr)
  assume "\<not> ilog2 x < k"
  then have "k \<le> ilog2 x" by simp
  then have "(2::rat) powi k \<le> 2 powi ilog2 x" by (rule power_int_increasing) simp
  with ilog2_bounds [OF assms(1)] assms(2) show False by linarith
qed

lemma ilog2_ge:
  assumes "0 < x" "2 powi k \<le> x"
  shows "k \<le> ilog2 x"
proof (rule ccontr)
  assume "\<not> k \<le> ilog2 x"
  then have "ilog2 x + 1 \<le> k" by simp
  then have "(2::rat) powi (ilog2 x + 1) \<le> 2 powi k" by (rule power_int_increasing) simp
  with ilog2_bounds [OF assms(1)] assms(2) show False by linarith
qed

lemma fl_pos_unfold:
  assumes "0 < x"
  shows "fl x = of_int (round_half_even (x / 2 powi (ilog2 x - 52))) * 2 powi (ilog2 x - 52)"
  using assms by (simp add: fl_def Let_def)

lemma fl_exact:
  assumes "0 < x" "x / 2 powi (ilog2 x - 52) = of_int m"
  shows "fl x = x"
proof -
  have p: "(0::rat) < 2 powi (ilog2 x - 52)" by simp
  have "fl x = of_int m * 2 powi (ilog2 x - 52)"
    unfolding fl_pos_unfold [OF assms(1)] assms(2) round_half_even_of_int ..
  also have "\<dots> = x" using assms(2) p by (simp add: field_simps)
  finally show ?thesis .
qed

lemma fl_of_int:
  assumes "0 < n" "n < 2 ^ 53"
  shows "fl (of_int n) = of_int n"
proof -
  define x where "x = rat_of_int n"
  define e where "e = ilog2 x"
  have x0: "0 < x" using assms(1) by (simp add: x_def)
  have "x < 2 powi 53" using assms(2) unfolding x_def by simp
  then have e53: "e < 53" unfolding e_def using x0 by (rule ilog2_less [rotated])
  have "2 powi 0 \<le> x" using assms(1) by (simp add: x_def)
  then have e0: "0 \<le> e" unfolding e_def using x0 by (rule ilog2_ge [rotated])
  have "(2::rat) powi (e - 52) = 1 / 2 powi (52 - e)"
    using power_int_minus_divide [of "2::rat" "52 - e"] by simp
  also have "\<dots> = 1 / 2 ^ nat (52 - e)" using e53 by (simp add: power_int_def)
  finally have "x / 2 powi (e - 52) = x * 2 ^ nat (52 - e)" by simp
  also have "\<dots> = rat_of_int (n * 2 ^ nat (52 - e))" by (simp add: x_def)
  finally have "x / 2 powi (ilog2 x - 52) = rat_of_int (n * 2 ^ nat (52 - e))" by (simp only: e_def)
  with x0 have "fl x = x" by (rule fl_exact)
  then show ?thesis by (simp only: x_def)
qed

lemma fl_error:
  assumes "0 < x"
  shows "\<bar>fl x - x\<bar> \<le> x / 2 ^ 53"
proof -
  define E where "E = ilog2 x - 52"
  define m where "m = round_half_even (x / 2 powi E)"
  have p: "(0::rat) < 2 powi E" by simp
  have "fl x - x = (of_int m - x / 2 powi E) * 2 powi E"
    unfolding fl_pos_unfold [OF assms] m_def E_def using p by (simp add: field_simps)
  then have "\<bar>fl x - x\<bar> = \<bar>of_int m - x / 2 powi E\<bar> * 2 powi E"
    using p by (simp add: abs_mult)
  also have "\<dots> \<le> 1 / 2 * 2 powi E"
    using round_half_even_error [of "x / 2 powi E"] p unfolding m_def
    by (intro mult_right_mono) simp_all
  also have "\<dots> = 2 powi ilog2 x / 2 ^ 53"
  proof -
    have "(2::rat) powi ilog2 x = 2 powi (E + 52)" by (simp add: E_def)
    also have "\<dots> = 2 powi E * 2 powi 52" by (rule power_int_add) simp
    finally show ?thesis by simp
  qed
  also have "\<dots> \<le> x / 2 ^ 53"
    using ilog2_bounds [OF assms] by (simp add: divide_right_mono)
  finally show ?thesis .
qed

text \<open>A known value as a check of the rounding: the float64 nearest to one tenth.\<close>

lemma fl_tenth: "fl (1 / 10) = 3602879701896397 / 2 ^ 55"
  by code_simp

text \<open>The conversion of an integer overflows from \<open>2\<^sup>1\<^sup>0\<^sup>2\<^sup>4\<close> on.\<close>

lemma float_of_int_overflow: "float_of_int (2 ^ 1024) = Inl OverflowError"
proof -
  define x :: rat where "x = 2 powi 1024"
  have x0: "0 < x" by (simp add: x_def)
  have "2 powi 1024 \<le> x" by (simp add: x_def)
  with x0 have ge: "1024 \<le> ilog2 x" by (rule ilog2_ge)
  have "x < 2 powi 1025" unfolding x_def by (rule power_int_strict_increasing) simp_all
  with x0 have "ilog2 x < 1025" by (rule ilog2_less)
  with ge have e: "ilog2 x = 1024" by simp
  have "x = 2 powi (52 + 972)" by (simp add: x_def)
  also have "\<dots> = 2 powi 52 * 2 powi 972" by (rule power_int_add) simp
  finally have "x / 2 powi (ilog2 x - 52) = rat_of_int (2 ^ 52)" unfolding e by simp
  with x0 have f: "fl x = x" by (rule fl_exact)
  have "rat_of_int (2 ^ 1024) = x" by (simp add: x_def)
  then show ?thesis using f e x0 by (simp add: float_of_int_def Let_def)
qed

section \<open>The interpolation on a two-point table\<close>

lemma fl_pos:
  assumes "0 < x"
  shows "0 < fl x"
proof -
  have "x / 2 ^ 53 < x" using assms by (simp add: field_simps)
  with fl_error [OF assms] show ?thesis by linarith
qed

lemma float_of_int_small:
  assumes "0 \<le> n" "n < 2 ^ 53"
  shows "float_of_int n = Inr (of_int n)"
proof (cases "n = 0")
  case True
  then show ?thesis by (simp add: float_of_int_def fl_def)
next
  case False
  then have n0: "0 < n" using assms(1) by simp
  have x0: "0 < rat_of_int n" using n0 by simp
  have "rat_of_int n < 2 powi 53" using assms(2) by simp
  with x0 have "ilog2 (rat_of_int n) < 53" by (rule ilog2_less)
  then show ?thesis
    using x0 by (simp add: float_of_int_def fl_of_int [OF n0 assms(2)] Let_def)
qed

lemma linear_search_pair:
  "linear_search key [a, b] (Suc 0) = (if b \<le> key then 2 else 1)"
  by (simp add: linear_search.simps [of key "[a, b]" "Suc 0"]
      linear_search.simps [of key "[a, b]" "Suc (Suc 0)"])

lemma fl_numeral: "fl 255 = 255" "fl 100 = 100"
  using fl_of_int [of 255] fl_of_int [of 100] by simp_all

lemma interp_first:
  assumes "0 < hi"
  shows "interp 0 [0, hi] [0, fv] = 0"
  using assms by (simp add: interp_def binary_search_with_guess_def linear_search_pair Let_def)

lemma interp_last:
  assumes "0 < hi"
  shows "interp hi [0, hi] [0, fv] = fv"
  using assms by (simp add: interp_def binary_search_with_guess_def linear_search_pair Let_def)

lemma interp_inside:
  assumes "0 < x" "x < hi"
  shows "interp x [0, hi] [0, fv] = fl (fl (fl (fl fv / fl hi) * fl x))"
  using assms
  by (simp add: interp_def binary_search_with_guess_def linear_search_pair
      fadd_def fsub_def fmul_def fdiv_def Let_def)

section \<open>The conversions truncate the exact quotient\<close>

text \<open>
  The two slopes as float64 values (\<^verbatim>\<open>0x1.4666666666666p+1\<close> and \<^verbatim>\<open>0x1.9191919191919p-2\<close>).
  Both lie below the exact quotient, so where the exact product is an integer (a multiple
  of 20, or of 51) the rounded product is decided by evaluation; everywhere else the
  exact product is at least \<open>1/51\<close> away from an integer and the error bound suffices.
\<close>

lemma slope_up: "fl (255 / 100) = 5742089524897382 / 2 ^ 51"
  by code_simp

lemma slope_down: "fl (100 / 255) = 7064470003718425 / 2 ^ 54"
  by code_simp

lemma fl_twice_bounds:
  assumes "0 < y"
  shows "y - y / 2 ^ 51 \<le> fl (fl y) \<and> fl (fl y) \<le> y + y / 2 ^ 51"
proof -
  have a: "\<bar>fl y - y\<bar> \<le> y / 2 ^ 53" using assms by (rule fl_error)
  have "0 < fl y" using assms by (rule fl_pos)
  then have b: "\<bar>fl (fl y) - fl y\<bar> \<le> fl y / 2 ^ 53" by (rule fl_error)
  have "fl y \<le> y + y / 2 ^ 53" using a by linarith
  also have "\<dots> \<le> 2 * y" using assms by (simp add: field_simps)
  finally have "fl y / 2 ^ 53 \<le> 2 * y / 2 ^ 53" by (intro divide_right_mono) simp_all
  also have "\<dots> = y / 2 ^ 52" by simp
  finally have d: "\<bar>fl (fl y) - fl y\<bar> \<le> y / 2 ^ 52" using b by linarith
  have e: "y / 2 ^ 53 + y / 2 ^ 52 \<le> y / 2 ^ 51" using assms by (simp add: field_simps)
  show ?thesis using a d e by linarith
qed

lemma up_ties:
  "fl (5742089524897382 / 2 ^ 51 * 20) = 51"
  "fl (5742089524897382 / 2 ^ 51 * 40) = 102"
  "fl (5742089524897382 / 2 ^ 51 * 60) = 153"
  "fl (5742089524897382 / 2 ^ 51 * 80) = 204"
  by code_simp+

lemma fl_up_ties: "fl 51 = 51" "fl 102 = 102" "fl 153 = 153" "fl 204 = 204"
  using fl_of_int [of 51] fl_of_int [of 102] fl_of_int [of 153] fl_of_int [of 204] by simp_all

lemma up_tie_vals:
  "\<lfloor>fl (fl (fl (255 / 100) * 20))\<rfloor> = 51"
  "\<lfloor>fl (fl (fl (255 / 100) * 40))\<rfloor> = 102"
  "\<lfloor>fl (fl (fl (255 / 100) * 60))\<rfloor> = 153"
  "\<lfloor>fl (fl (fl (255 / 100) * 80))\<rfloor> = 204"
  by (simp_all only: slope_up up_ties fl_up_ties floor_numeral)

lemma up_tie_set:
  "\<forall>v\<in>set [1..99]. v * 255 mod 100 = 0 \<longrightarrow> v = 20 \<or> v = 40 \<or> v = 60 \<or> v = 80"
  by code_simp

lemma up_floor_tie:
  assumes "0 < v" "v < 100" "v * 255 mod 100 = 0"
  shows "\<lfloor>fl (fl (fl (255 / 100) * rat_of_int v))\<rfloor> = v * 255 div 100"
proof -
  have m: "v \<in> set [1..99]" using assms by simp
  have "v = 20 \<or> v = 40 \<or> v = 60 \<or> v = 80"
    by (rule mp [OF bspec [OF up_tie_set m] assms(3)])
  then show ?thesis using up_tie_vals by (elim disjE) simp_all
qed

lemma mod5_bounds:
  fixes r q n :: int
  assumes "r \<noteq> 0" "r = 5 * q" "0 \<le> r" "r < 5 * n"
  shows "5 \<le> r \<and> r \<le> 5 * n - 5"
  using assms by presburger

lemma up_residue:
  fixes v :: int
  assumes "v * 255 mod 100 \<noteq> 0"
  shows "5 \<le> v * 255 mod 100 \<and> v * 255 mod 100 \<le> 95"
proof -
  have "5 dvd v * 255 mod 100" by (rule dvd_mod) simp_all
  then obtain q where q: "v * 255 mod 100 = 5 * q" by (auto simp: dvd_def)
  have "0 \<le> v * 255 mod 100" "v * 255 mod 100 < 5 * 20" by simp_all
  with assms q have "5 \<le> v * 255 mod 100 \<and> v * 255 mod 100 \<le> 5 * 20 - 5" by (intro mod5_bounds)
  then show ?thesis by simp
qed

lemma up_floor_inexact:
  assumes "0 < v" "v < 100" "v * 255 mod 100 \<noteq> 0"
  shows "\<lfloor>fl (fl (fl (255 / 100) * rat_of_int v))\<rfloor> = v * 255 div 100"
proof -
  define k where "k = v * 255 div 100"
  define r where "r = v * 255 mod 100"
  define y where "y = 5742089524897382 / 2 ^ 51 * rat_of_int v"
  have r: "5 \<le> r" "r \<le> 95" using up_residue [OF assms(3)] unfolding r_def by blast+
  have "k * 100 + r = v * 255" unfolding k_def r_def by (rule div_mult_mod_eq)
  then have "rat_of_int (k * 100 + r) = rat_of_int (v * 255)" by (simp only:)
  then have kv: "100 * rat_of_int k + rat_of_int r = 255 * rat_of_int v" by simp
  have rr: "5 \<le> rat_of_int r" "rat_of_int r \<le> 95" using r by simp_all
  have vv: "0 < rat_of_int v" "rat_of_int v < 100" using assms by simp_all
  have y0: "0 < y" using vv unfolding y_def by simp
  have b: "y - y / 2 ^ 51 \<le> fl (fl y)" "fl (fl y) \<le> y + y / 2 ^ 51"
    using fl_twice_bounds [OF y0] by blast+
  have "rat_of_int k \<le> y - y / 2 ^ 51" unfolding y_def using kv rr vv by (simp add: field_simps)
  moreover have "y + y / 2 ^ 51 < rat_of_int k + 1" unfolding y_def using kv rr vv by (simp add: field_simps)
  ultimately have "rat_of_int k \<le> fl (fl y)" "fl (fl y) < rat_of_int k + 1" using b by linarith+
  then have "\<lfloor>fl (fl y)\<rfloor> = k" by (rule floor_unique)
  then show ?thesis unfolding slope_up y_def k_def .
qed

lemma down_ties:
  "fl (7064470003718425 / 2 ^ 54 * 51) = 20"
  "fl (7064470003718425 / 2 ^ 54 * 102) = 40"
  "fl (7064470003718425 / 2 ^ 54 * 153) = 60"
  "fl (7064470003718425 / 2 ^ 54 * 204) = 80"
  by code_simp+

lemma fl_down_ties: "fl 20 = 20" "fl 40 = 40" "fl 60 = 60" "fl 80 = 80"
  using fl_of_int [of 20] fl_of_int [of 40] fl_of_int [of 60] fl_of_int [of 80] by simp_all

lemma down_tie_vals:
  "\<lfloor>fl (fl (fl (100 / 255) * 51))\<rfloor> = 20"
  "\<lfloor>fl (fl (fl (100 / 255) * 102))\<rfloor> = 40"
  "\<lfloor>fl (fl (fl (100 / 255) * 153))\<rfloor> = 60"
  "\<lfloor>fl (fl (fl (100 / 255) * 204))\<rfloor> = 80"
  by (simp_all only: slope_down down_ties fl_down_ties floor_numeral)

lemma down_tie_set:
  "\<forall>v\<in>set [1..254]. v * 100 mod 255 = 0 \<longrightarrow> v = 51 \<or> v = 102 \<or> v = 153 \<or> v = 204"
  by code_simp

lemma down_floor_tie:
  assumes "0 < v" "v < 255" "v * 100 mod 255 = 0"
  shows "\<lfloor>fl (fl (fl (100 / 255) * rat_of_int v))\<rfloor> = v * 100 div 255"
proof -
  have m: "v \<in> set [1..254]" using assms by simp
  have "v = 51 \<or> v = 102 \<or> v = 153 \<or> v = 204"
    by (rule mp [OF bspec [OF down_tie_set m] assms(3)])
  then show ?thesis using down_tie_vals by (elim disjE) simp_all
qed

lemma down_residue:
  fixes v :: int
  assumes "v * 100 mod 255 \<noteq> 0"
  shows "5 \<le> v * 100 mod 255 \<and> v * 100 mod 255 \<le> 250"
proof -
  have "5 dvd v * 100 mod 255" by (rule dvd_mod) simp_all
  then obtain q where q: "v * 100 mod 255 = 5 * q" by (auto simp: dvd_def)
  have "0 \<le> v * 100 mod 255" "v * 100 mod 255 < 5 * 51" by simp_all
  with assms q have "5 \<le> v * 100 mod 255 \<and> v * 100 mod 255 \<le> 5 * 51 - 5" by (intro mod5_bounds)
  then show ?thesis by simp
qed

lemma down_floor_inexact:
  assumes "0 < v" "v < 255" "v * 100 mod 255 \<noteq> 0"
  shows "\<lfloor>fl (fl (fl (100 / 255) * rat_of_int v))\<rfloor> = v * 100 div 255"
proof -
  define k where "k = v * 100 div 255"
  define r where "r = v * 100 mod 255"
  define y where "y = 7064470003718425 / 2 ^ 54 * rat_of_int v"
  have r: "5 \<le> r" "r \<le> 250" using down_residue [OF assms(3)] unfolding r_def by blast+
  have "k * 255 + r = v * 100" unfolding k_def r_def by (rule div_mult_mod_eq)
  then have "rat_of_int (k * 255 + r) = rat_of_int (v * 100)" by (simp only:)
  then have kv: "255 * rat_of_int k + rat_of_int r = 100 * rat_of_int v" by simp
  have rr: "5 \<le> rat_of_int r" "rat_of_int r \<le> 250" using r by simp_all
  have vv: "0 < rat_of_int v" "rat_of_int v < 255" using assms by simp_all
  have y0: "0 < y" using vv unfolding y_def by simp
  have b: "y - y / 2 ^ 51 \<le> fl (fl y)" "fl (fl y) \<le> y + y / 2 ^ 51"
    using fl_twice_bounds [OF y0] by blast+
  have "rat_of_int k \<le> y - y / 2 ^ 51" unfolding y_def using kv rr vv by (simp add: field_simps)
  moreover have "y + y / 2 ^ 51 < rat_of_int k + 1" unfolding y_def using kv rr vv by (simp add: field_simps)
  ultimately have "rat_of_int k \<le> fl (fl y)" "fl (fl y) < rat_of_int k + 1" using b by linarith+
  then have "\<lfloor>fl (fl y)\<rfloor> = k" by (rule floor_unique)
  then show ?thesis unfolding slope_down y_def k_def .
qed

lemma py_int_fl_fl:
  assumes "0 < y"
  shows "py_int (fl (fl y)) = \<lfloor>fl (fl y)\<rfloor>"
  using fl_pos [OF fl_pos [OF assms]] by (simp add: py_int_def)

lemma crownstone_state_to_hass_floor:
  assumes "0 \<le> v" "v \<le> 100"
  shows "crownstone_state_to_hass v = Inr (v * 255 div 100)"
proof -
  have f: "float_of_int v = Inr (rat_of_int v)" using assms by (intro float_of_int_small) simp_all
  consider "v = 0" | "v = 100" | "0 < v" "v < 100" using assms by linarith
  then show ?thesis
  proof cases
    case 1
    then show ?thesis using f interp_first [of 100 255]
      by (simp add: crownstone_state_to_hass_def py_int_def)
  next
    case 2
    then show ?thesis using f interp_last [of 100 255]
      by (simp add: crownstone_state_to_hass_def py_int_def)
  next
    case 3
    have x: "0 < rat_of_int v" "rat_of_int v < 100" using 3 by simp_all
    have fv: "fl (rat_of_int v) = rat_of_int v" using 3 by (intro fl_of_int) simp_all
    have i: "interp (rat_of_int v) [0, 100] [0, 255] = fl (fl (fl (255 / 100) * rat_of_int v))"
      unfolding interp_inside [OF x] fl_numeral fv ..
    have "0 < fl (255 / 100) * rat_of_int v" unfolding slope_up using x by simp
    then have "py_int (fl (fl (fl (255 / 100) * rat_of_int v))) = \<lfloor>fl (fl (fl (255 / 100) * rat_of_int v))\<rfloor>"
      by (rule py_int_fl_fl)
    also have "\<dots> = v * 255 div 100"
      using up_floor_tie [OF 3] up_floor_inexact [OF 3] by blast
    finally show ?thesis using f i by (simp add: crownstone_state_to_hass_def)
  qed
qed

lemma hass_to_crownstone_state_floor:
  assumes "0 \<le> v" "v \<le> 255"
  shows "hass_to_crownstone_state v = Inr (v * 100 div 255)"
proof -
  have f: "float_of_int v = Inr (rat_of_int v)" using assms by (intro float_of_int_small) simp_all
  consider "v = 0" | "v = 255" | "0 < v" "v < 255" using assms by linarith
  then show ?thesis
  proof cases
    case 1
    then show ?thesis using f interp_first [of 255 100]
      by (simp add: hass_to_crownstone_state_def py_int_def)
  next
    case 2
    then show ?thesis using f interp_last [of 255 100]
      by (simp add: hass_to_crownstone_state_def py_int_def)
  next
    case 3
    have x: "0 < rat_of_int v" "rat_of_int v < 255" using 3 by simp_all
    have fv: "fl (rat_of_int v) = rat_of_int v" using 3 by (intro fl_of_int) simp_all
    have i: "interp (rat_of_int v) [0, 255] [0, 100] = fl (fl (fl (100 / 255) * rat_of_int v))"
      unfolding interp_inside [OF x] fl_numeral fv ..
    have "0 < fl (100 / 255) * rat_of_int v" unfolding slope_down using x by simp
    then have "py_int (fl (fl (fl (100 / 255) * rat_of_int v))) = \<lfloor>fl (fl (fl (100 / 255) * rat_of_int v))\<rfloor>"
      by (rule py_int_fl_fl)
    also have "\<dots> = v * 100 div 255"
      using down_floor_tie [OF 3] down_floor_inexact [OF 3] by blast
    finally show ?thesis using f i by (simp add: hass_to_crownstone_state_def)
  qed
qed

section \<open>Integer division brackets\<close>

lemma div_bracket:
  fixes a d :: int
  assumes "0 < d"
  shows "a div d * d \<le> a \<and> a < a div d * d + d"
proof -
  have "a div d * d + a mod d = a" by (rule div_mult_mod_eq)
  moreover have "0 \<le> a mod d" "a mod d < d" using assms by simp_all
  ultimately show ?thesis by linarith
qed

lemma to_hass_range:
  fixes v :: int
  assumes "0 \<le> v" "v \<le> 100"
  shows "0 \<le> v * 255 div 100 \<and> v * 255 div 100 \<le> 255"
  using div_bracket [of 100 "v * 255"] assms by linarith

lemma to_crownstone_range:
  fixes v :: int
  assumes "0 \<le> v" "v \<le> 255"
  shows "0 \<le> v * 100 div 255 \<and> v * 100 div 255 \<le> 100"
  using div_bracket [of 255 "v * 100"] assms by linarith

section \<open>Claims about the scale conversion\<close>

text \<open>
  Against C2 as stated: the code truncates where the specification rounds. At 1 the
  Crownstone-to-hass conversion yields 2, while the exact value 2.55 rounds to 3; at 2 the
  hass-to-Crownstone conversion yields 0, while 0.78 rounds to 1. Neither value is a tie,
  so the rule chosen for ties plays no part.
\<close>

theorem scale_conversion_not_rounded:
  "crownstone_state_to_hass 1 = Inr 2 \<and> to_external_spec 1 = 3 \<and>
   hass_to_crownstone_state 2 = Inr 0 \<and> to_internal_spec 2 = 1"
proof -
  have "to_external_spec 1 = 3" "to_internal_spec 2 = 1" by code_simp+
  then show ?thesis
    using crownstone_state_to_hass_floor [of 1] hass_to_crownstone_state_floor [of 2] by simp
qed

text \<open>
  C2 (amended): for every integer \<open>v\<close> in 0..100, \<^verbatim>\<open>crownstone_state_to_hass\<close> returns
  \<open>v * 255 / 100\<close> rounded down, and for every integer \<open>w\<close> in 0..255,
  \<^verbatim>\<open>hass_to_crownstone_state\<close> returns \<open>w * 100 / 255\<close> rounded down: \<^verbatim>\<open>int()\<close> truncates
  the interpolated float, and the float64 rounding never carries a product across an
  integer on these ranges.
\<close>

theorem scale_conversion_truncates:
  "(0 \<le> v \<and> v \<le> 100 \<longrightarrow> crownstone_state_to_hass v = Inr (v * 255 div 100)) \<and>
   (0 \<le> w \<and> w \<le> 255 \<longrightarrow> hass_to_crownstone_state w = Inr (w * 100 div 255))"
  using crownstone_state_to_hass_floor [of v] hass_to_crownstone_state_floor [of w] by blast

theorem scale_conversion_truncates_witness:
  "(0::int) \<le> 99 \<and> (99::int) \<le> 100 \<and> crownstone_state_to_hass 99 = Inr 252 \<and>
   (0::int) \<le> 254 \<and> (254::int) \<le> 255 \<and> hass_to_crownstone_state 254 = Inr 99"
  using scale_conversion_truncates [of 99 254] by simp

text \<open>
  Against C3 as stated: 254 goes to 99 on the Crownstone scale and comes back as 252,
  two away from where it started.
\<close>

theorem external_round_trip_drifts:
  "hass_to_crownstone_state 254 = Inr 99 \<and> crownstone_state_to_hass 99 = Inr 252 \<and>
   \<not> \<bar>252 - 254\<bar> \<le> (1::int)"
  using crownstone_state_to_hass_floor [of 99] hass_to_crownstone_state_floor [of 254] by simp

text \<open>
  C3 (amended): for every integer \<open>v\<close> in 0..255, converting to the Crownstone scale and
  back succeeds and gives a value that is never above \<open>v\<close> and at most 3 below it
  (5 comes back as 2).
\<close>

theorem external_round_trip:
  assumes "0 \<le> v" "v \<le> 255"
  shows "\<exists>w u. hass_to_crownstone_state v = Inr w \<and> crownstone_state_to_hass w = Inr u \<and>
           v - 3 \<le> u \<and> u \<le> v"
proof -
  define w where "w = v * 100 div 255"
  define u where "u = w * 255 div 100"
  have a: "hass_to_crownstone_state v = Inr w"
    unfolding w_def using assms by (rule hass_to_crownstone_state_floor)
  have wr: "0 \<le> w" "w \<le> 100" using to_crownstone_range [OF assms] unfolding w_def by blast+
  then have b: "crownstone_state_to_hass w = Inr u"
    unfolding u_def by (rule crownstone_state_to_hass_floor)
  have "v - 3 \<le> u \<and> u \<le> v"
    using div_bracket [of 255 "v * 100"] div_bracket [of 100 "w * 255"]
    unfolding w_def [symmetric] u_def [symmetric] by linarith
  with a b show ?thesis by blast
qed

theorem external_round_trip_witness:
  "(0::int) \<le> 254 \<and> (254::int) \<le> 255 \<and>
   (\<exists>w u. hass_to_crownstone_state 254 = Inr w \<and> crownstone_state_to_hass w = Inr u \<and>
      254 - 3 \<le> u \<and> u \<le> 254)"
  using external_round_trip [of 254] by simp

text \<open>
  C4: for every integer \<open>v\<close> in 0..100, converting to the hass scale and back succeeds
  and gives a value that differs from \<open>v\<close> by at most 1.
\<close>

theorem internal_round_trip:
  assumes "0 \<le> v" "v \<le> 100"
  shows "\<exists>w u. crownstone_state_to_hass v = Inr w \<and> hass_to_crownstone_state w = Inr u \<and>
           \<bar>u - v\<bar> \<le> 1"
proof -
  define w where "w = v * 255 div 100"
  define u where "u = w * 100 div 255"
  have a: "crownstone_state_to_hass v = Inr w"
    unfolding w_def using assms by (rule crownstone_state_to_hass_floor)
  have wr: "0 \<le> w" "w \<le> 255" using to_hass_range [OF assms] unfolding w_def by blast+
  then have b: "hass_to_crownstone_state w = Inr u"
    unfolding u_def by (rule hass_to_crownstone_state_floor)
  have "\<bar>u - v\<bar> \<le> 1"
    using div_bracket [of 100 "v * 255"] div_bracket [of 255 "w * 100"]
    unfolding w_def [symmetric] u_def [symmetric] by linarith
  with a b show ?thesis by blast
qed

theorem internal_round_trip_witness:
  "(0::int) \<le> 3 \<and> (3::int) \<le> 100 \<and>
   (\<exists>w u. crownstone_state_to_hass 3 = Inr w \<and> hass_to_crownstone_state w = Inr u \<and>
      \<bar>u - 3\<bar> \<le> 1)"
  using internal_round_trip [of 3] by simp

text \<open>
  C5: the conversions are exact at the ends of the two scales: 0 goes to 0 in both
  directions, 100 goes to 255 and 255 goes to 100.
\<close>

theorem conversion_endpoints:
  "crownstone_state_to_hass 0 = Inr 0 \<and> crownstone_state_to_hass 100 = Inr 255 \<and>
   hass_to_crownstone_state 0 = Inr 0 \<and> hass_to_crownstone_state 255 = Inr 100"
  using crownstone_state_to_hass_floor [of 0] crownstone_state_to_hass_floor [of 100]
    hass_to_crownstone_state_floor [of 0] hass_to_crownstone_state_floor [of 255]
  by simp

text \<open>
  C10: for a stored state in 0..100, \<^verbatim>\<open>is_on\<close> returns true exactly when the stored state
  is greater than 0.
\<close>

theorem is_on_iff_positive:
  assumes "0 \<le> state (device self)" "state (device self) \<le> 100"
  shows "is_on self = Inr (0 < state (device self))"
proof -
  define v where "v = state (device self)"
  have "crownstone_state_to_hass v = Inr (v * 255 div 100)"
    using assms unfolding v_def by (rule crownstone_state_to_hass_floor)
  moreover have "0 < v * 255 div 100 \<longleftrightarrow> 0 < v"
    using div_bracket [of 100 "v * 255"] assms unfolding v_def by linarith
  ultimately show ?thesis by (simp add: is_on_def v_def)
qed

theorem is_on_iff_positive_witness:
  "0 \<le> state (device (cloud_only (plain_device\<lparr>state := 1\<rparr>))) \<and>
   state (device (cloud_only (plain_device\<lparr>state := 1\<rparr>))) \<le> 100 \<and>
   is_on (cloud_only (plain_device\<lparr>state := 1\<rparr>)) = Inr True"
  using is_on_iff_positive [of "cloud_only (plain_device\<lparr>state := 1\<rparr>)"]
  by (simp add: cloud_only_def plain_device_def)

lemmas run_defs =
  execute_def async_turn_on_def async_turn_off_def turn_on_brightness_def invoke_def
  usb_ready_def result_of_def entity_of_def events_of_def Let_def

lemmas sample_defs =
  cloud_only_def with_dongle_def dongle_def plain_device_def undimmable_device_def
  offline_device_def

text \<open>
  A level too large for a float64 makes the conversion raise before any channel is
  reached, which is why the claims below take the level from the host's scale.
\<close>

lemma set_brightness_overflow:
  "execute (SetBrightness (2 ^ 1024)) self = (Inl OverflowError, self, [])"
  using float_of_int_overflow
  by (simp add: run_defs hass_to_crownstone_state_def split: option.splits)

section \<open>Claims about the commands\<close>

text \<open>
  C1: for every command (with a brightness level in 0..255), an operation of the local
  channel is invoked if and only if a dongle is present and its readiness check returns
  true, and an operation of the cloud channel is invoked if and only if that is not so.
  The instance below is the scenario of a dongle that is present but not ready:
  \<^verbatim>\<open>turn_off\<close> goes through the cloud.
\<close>

theorem channel_selection:
  assumes "valid_command cmd"
  shows "(list_ex local_event (events_of (execute cmd self)) \<longleftrightarrow>
            (\<exists>u. usb self = Some u \<and> is_ready u)) \<and>
         (list_ex remote_event (events_of (execute cmd self)) \<longleftrightarrow>
            \<not> (\<exists>u. usb self = Some u \<and> is_ready u))"
proof (cases cmd)
  case TurnOn
  then show ?thesis by (auto simp: run_defs split: option.splits sum.splits if_splits)
next
  case TurnOff
  then show ?thesis by (auto simp: run_defs split: option.splits sum.splits if_splits)
next
  case (SetBrightness b)
  with assms have "hass_to_crownstone_state b = Inr (b * 100 div 255)"
    by (intro hass_to_crownstone_state_floor) simp_all
  with SetBrightness show ?thesis
    by (auto simp: run_defs split: option.splits sum.splits exn.splits if_splits)
qed

theorem channel_selection_witness:
  "valid_command TurnOff \<and>
   \<not> list_ex local_event (events_of (execute TurnOff (with_dongle False plain_device))) \<and>
   list_ex remote_event (events_of (execute TurnOff (with_dongle False plain_device)))"
  using channel_selection [of TurnOff "with_dongle False plain_device"]
  by (simp add: sample_defs)



text \<open>
  C7: when the cloud brightness request raises \<^verbatim>\<open>CrownstoneAbilityError\<close>, the method
  returns normally, the entity (and with it the stored state) is unchanged, and the only
  events are the request and the logging of the error: no state write.
\<close>

theorem ability_error_swallowed:
  assumes "\<not> (\<exists>u. usb self = Some u \<and> is_ready u)"
    and "hass_to_crownstone_state b = Inr lvl"
    and "device_async_set_brightness (device self) lvl = Inl CrownstoneAbilityError"
  shows "async_turn_on (Some b) self =
           (Inr (), self,
            [Channel (CloudSetBrightness lvl) (Inl CrownstoneAbilityError),
             LogError CrownstoneAbilityError])"
  using assms by (auto simp: run_defs split: option.splits if_splits)

theorem ability_error_swallowed_witness:
  "\<not> (\<exists>u. usb (cloud_only undimmable_device) = Some u \<and> is_ready u) \<and>
   hass_to_crownstone_state 255 = Inr 100 \<and>
   device_async_set_brightness (device (cloud_only undimmable_device)) 100 =
     Inl CrownstoneAbilityError \<and>
   async_turn_on (Some 255) (cloud_only undimmable_device) =
     (Inr (), cloud_only undimmable_device,
      [Channel (CloudSetBrightness 100) (Inl CrownstoneAbilityError),
       LogError CrownstoneAbilityError])"
proof -
  have h: "hass_to_crownstone_state 255 = Inr 100"
    using hass_to_crownstone_state_floor [of 255] by simp
  show ?thesis
    using h ability_error_swallowed [of "cloud_only undimmable_device" 255 100]
    by (simp add: sample_defs)
qed

text \<open>
  C8: whenever a channel operation invoked by a command raises an exception other than
  \<^verbatim>\<open>CrownstoneAbilityError\<close>, the command raises that exception to its caller.
\<close>

theorem other_failures_propagate:
  assumes "Channel c (Inl e) \<in> set (events_of (execute cmd self))"
    and "e \<noteq> CrownstoneAbilityError"
  shows "result_of (execute cmd self) = Inl e"
proof (cases cmd)
  case TurnOn
  with assms show ?thesis by (auto simp: run_defs split: option.splits sum.splits if_splits)
next
  case TurnOff
  with assms show ?thesis by (auto simp: run_defs split: option.splits sum.splits if_splits)
next
  case (SetBrightness b)
  with assms show ?thesis
    by (auto simp: run_defs split: option.splits sum.splits exn.splits if_splits)
qed

theorem other_failures_propagate_witness:
  "Channel CloudTurnOff (Inl (OtherException ''timeout''))
     \<in> set (events_of (execute TurnOff (cloud_only offline_device))) \<and>
   OtherException ''timeout'' \<noteq> CrownstoneAbilityError \<and>
   result_of (execute TurnOff (cloud_only offline_device)) = Inl (OtherException ''timeout'')"
  using other_failures_propagate
    [of CloudTurnOff "OtherException ''timeout''" TurnOff "cloud_only offline_device"]
  by (simp add: sample_defs run_defs)

text \<open>
  Against C9 as stated: a brightness command at level 255 is issued to the cloud, which
  rejects it; the stored state stays 0 and is not written to the target 100.
\<close>

theorem state_kept_on_rejection:
  "events_of (execute (SetBrightness 255) (cloud_only undimmable_device)) =
     [Channel (CloudSetBrightness 100) (Inl CrownstoneAbilityError),
      LogError CrownstoneAbilityError] \<and>
   target_state (SetBrightness 255) = Inr 100 \<and>
   state (device (entity_of (execute (SetBrightness 255) (cloud_only undimmable_device)))) = 0"
proof -
  have h: "hass_to_crownstone_state 255 = Inr 100"
    using hass_to_crownstone_state_floor [of 255] by simp
  show ?thesis using h by (simp add: run_defs sample_defs)
qed

text \<open>
  C9 (amended): as soon as the channel operation of a command returns, the stored state is
  written to the command's target (the converted level, 100 or 0) and the state write
  follows, with no confirmation awaited; when the operation raises, the entity is left
  as it was.
\<close>

theorem state_written_when_call_returns:
  "(Channel c (Inr ()) \<in> set (events_of (execute cmd self)) \<longrightarrow>
      target_state cmd = Inr (state (device (entity_of (execute cmd self)))) \<and>
      last (events_of (execute cmd self)) = WriteHaState) \<and>
   (Channel c' (Inl e) \<in> set (events_of (execute cmd' self')) \<longrightarrow>
      entity_of (execute cmd' self') = self')"
proof -
  have a: "target_state cmd = Inr (state (device (entity_of (execute cmd self)))) \<and>
      last (events_of (execute cmd self)) = WriteHaState"
    if "Channel c (Inr ()) \<in> set (events_of (execute cmd self))"
    using that
    by (cases cmd) (auto simp: run_defs set_state_def split: option.splits sum.splits exn.splits if_splits)
  have b: "entity_of (execute cmd' self') = self'"
    if "Channel c' (Inl e) \<in> set (events_of (execute cmd' self'))"
    using that
    by (cases cmd') (auto simp: run_defs set_state_def split: option.splits sum.splits exn.splits if_splits)
  from a b show ?thesis by blast
qed

theorem state_written_when_call_returns_witness:
  "Channel (UsbDimCrownstone 7 50) (Inr ())
     \<in> set (events_of (execute (SetBrightness 128) (with_dongle True plain_device))) \<and>
   state (device (entity_of (execute (SetBrightness 128) (with_dongle True plain_device)))) = 50 \<and>
   Channel CloudTurnOn (Inl (OtherException ''timeout''))
     \<in> set (events_of (execute TurnOn (cloud_only offline_device))) \<and>
   entity_of (execute TurnOn (cloud_only offline_device)) = cloud_only offline_device"
proof -
  have h: "hass_to_crownstone_state 128 = Inr 50"
    using hass_to_crownstone_state_floor [of 128] by simp
  show ?thesis
    using h state_written_when_call_returns
      [of "UsbDimCrownstone 7 50" "SetBrightness 128" "with_dongle True plain_device"
          CloudTurnOn "OtherException ''timeout''" TurnOn "cloud_only offline_device"]
    by (simp add: run_defs sample_defs set_state_def)
qed

end
